theory Spec2Isabelle
  imports Main "HOL-Library.Word"
begin

unbundle bit_operations_syntax

section \<open>Data model\<close>

text \<open>
  A Python \<open>str\<close> is a sequence of Unicode code points. \<open>cyrb53\<close> reads each of them
  with \<open>ord\<close>, so a string is modelled as the list of its code points (natural numbers),
  not as a list of bytes. \<open>str_lit\<close> turns an ASCII literal into that representation.
\<close>

type_synonym pystr = "nat list"

definition str_lit :: "string \<Rightarrow> pystr" where
  "str_lit s = map of_char s"

text \<open>
  Python's \<open>bytes\<close> and \<open>bytearray\<close> are lists of integers; storing a value outside
  \<open>0..255\<close> raises, which the model keeps as an error branch.
\<close>

type_synonym pybytes = "int list"

datatype py_error =
  ValueError | IndexError | UnicodeDecodeError | OSError | OverflowError | MemoryError

section \<open>Token cleaning: \<open>clean_bpe_token\<close>\<close>

text \<open>\<open>s.endswith(suf)\<close>\<close>

definition endswith :: "pystr \<Rightarrow> pystr \<Rightarrow> bool" where
  "endswith s suf = (length suf \<le> length s \<and> drop (length s - length suf) s = suf)"

text \<open>
  \<open>s[:-n]\<close> for a positive \<open>n\<close>: everything but the last \<open>n\<close> code points, and the
  empty string when \<open>s\<close> is shorter than \<open>n\<close>.
\<close>

definition slice_drop_last :: "nat \<Rightarrow> pystr \<Rightarrow> pystr" where
  "slice_drop_last n s = take (length s - n) s"

definition end_of_word :: pystr where
  "end_of_word = str_lit ''</w>''"

definition special_tokens :: "pystr list" where
  "special_tokens = [str_lit ''<unk>'', str_lit ''<pad>'', str_lit ''<s>'', str_lit ''</s>'']"

text \<open>
  \<^verbatim>\<open>
  def clean_bpe_token(token):
      if token.endswith('</w>'):
          return token[:-4]
      if token in ['<unk>', '<pad>', '<s>', '</s>']:
          return None
      return token
  \<close>
\<close>

definition clean_bpe_token :: "pystr \<Rightarrow> pystr option" where
  "clean_bpe_token token =
     (if endswith token end_of_word then Some (slice_drop_last 4 token)
      else if token \<in> set special_tokens then None
      else Some token)"

section \<open>The fingerprint: \<open>cyrb53\<close>\<close>

text \<open>
  Python integers are unbounded, so the accumulators are \<open>int\<close> and the truncation to 32
  bits is the \<open>& 0xFFFFFFFF\<close> the source writes. \<open>>>\<close> is \<open>drop_bit\<close>.

  \<^verbatim>\<open>
  for char in data:
      ch = ord(char)
      h1 = ((h1 ^ ch) * 2654435761) & 0xFFFFFFFF
      h2 = ((h2 ^ ch) * 1597334677) & 0xFFFFFFFF
  \<close>
\<close>

fun char_loop :: "int \<Rightarrow> int \<Rightarrow> pystr \<Rightarrow> int \<times> int" where
  "char_loop h1 h2 [] = (h1, h2)"
| "char_loop h1 h2 (c # cs) =
     (let ch = int c
      in char_loop (((h1 XOR ch) * 2654435761) AND 0xFFFFFFFF)
                   (((h2 XOR ch) * 1597334677) AND 0xFFFFFFFF) cs)"

text \<open>
  \<^verbatim>\<open>
  h1 = ((h1 ^ (h1 >> 16)) * 2246822507) & 0xFFFFFFFF
  h1 ^= ((h2 ^ (h2 >> 13)) * 3266489909) & 0xFFFFFFFF
  h2 = ((h2 ^ (h2 >> 16)) * 2246822507) & 0xFFFFFFFF
  h2 ^= ((h1 ^ (h1 >> 13)) * 3266489909) & 0xFFFFFFFF
  \<close>
\<close>

definition final_mixing :: "int \<Rightarrow> int \<Rightarrow> int \<times> int" where
  "final_mixing h1 h2 =
     (let h1 = ((h1 XOR drop_bit 16 h1) * 2246822507) AND 0xFFFFFFFF;
          h1 = h1 XOR (((h2 XOR drop_bit 13 h2) * 3266489909) AND 0xFFFFFFFF);
          h2 = ((h2 XOR drop_bit 16 h2) * 2246822507) AND 0xFFFFFFFF;
          h2 = h2 XOR (((h1 XOR drop_bit 13 h1) * 3266489909) AND 0xFFFFFFFF)
      in (h1, h2))"

text \<open>
  \<open>bytearray(n)\<close> converts \<open>n\<close> to a machine index, which raises \<open>OverflowError\<close> outside
  \<open>-sys.maxsize - 1 .. sys.maxsize\<close> (64-bit CPython: \<open>sys.maxsize = 2 ^ 63 - 1\<close>); a
  negative count then raises \<open>ValueError\<close>; otherwise the buffer is allocated, which raises
  \<open>MemoryError\<close> when the allocator cannot provide \<open>n\<close> bytes, and filled with zeros. What
  the allocator can provide depends on the machine and not on the program: \<open>mem\<close> is the
  size of the largest buffer it provides.
\<close>

definition sys_maxsize :: int where
  "sys_maxsize = 2 ^ 63 - 1"

definition bytearray :: "int \<Rightarrow> int \<Rightarrow> py_error + pybytes" where
  "bytearray mem n =
     (if n < - sys_maxsize - 1 \<or> sys_maxsize < n then Inl OverflowError
      else if n < 0 then Inl ValueError
      else if mem < n then Inl MemoryError
      else Inr (replicate (nat n) 0))"

text \<open>
  \<open>b[i] = v\<close> on a bytearray, for a non-negative index: the value must be a byte and the
  index in range.
\<close>

definition setitem :: "pybytes \<Rightarrow> nat \<Rightarrow> int \<Rightarrow> py_error + pybytes" where
  "setitem b i v =
     (if v < 0 \<or> 255 < v then Inl ValueError
      else if length b \<le> i then Inl IndexError
      else Inr (b[i := v]))"

text \<open>
  \<^verbatim>\<open>
  for i in range(bytes_to_fill):
      if i < 4:
          result[i] = (h2 >> (i * 8)) & 0xFF
      else:
          result[i] = (h1 >> ((i - 4) * 8)) & 0xFF
  \<close>
  The list argument is the range still to be visited.
\<close>

fun fill_loop :: "int \<Rightarrow> int \<Rightarrow> nat list \<Rightarrow> pybytes \<Rightarrow> py_error + pybytes" where
  "fill_loop h1 h2 [] result = Inr result"
| "fill_loop h1 h2 (i # js) result =
     (case setitem result i
             (if i < 4 then (drop_bit (i * 8) h2) AND 0xFF
              else (drop_bit ((i - 4) * 8) h1) AND 0xFF) of
        Inl e \<Rightarrow> Inl e
      | Inr result' \<Rightarrow> fill_loop h1 h2 js result')"

text \<open>
  \<open>cyrb53(data, seed, hash_size)\<close>, on a machine whose allocator provides buffers of up
  to \<open>mem\<close> bytes. \<open>range(n)\<close> is \<open>[0..<nat n]\<close>, empty for a negative \<open>n\<close>.
\<close>

definition cyrb53_mem :: "int \<Rightarrow> pystr \<Rightarrow> int \<Rightarrow> int \<Rightarrow> py_error + pybytes" where
  "cyrb53_mem mem data seed hash_size =
     (let h1 = 0xdeadbeef XOR seed;
          h2 = 0x41c6ce57 XOR seed;
          (h1, h2) = char_loop h1 h2 data;
          (h1, h2) = final_mixing h1 h2
      in case bytearray mem hash_size of
           Inl e \<Rightarrow> Inl e
         | Inr result \<Rightarrow>
             (let bytes_to_fill = min 8 hash_size
              in fill_loop h1 h2 [0..<nat bytes_to_fill] result))"

text \<open>
  The same function where the allocator is not the limit: every buffer that has a
  machine index is provided. It returns what \<open>cyrb53_mem mem\<close> returns at every length up
  to \<open>mem\<close>; the builder, whose only buffer has 64 bytes, is modelled with it.
\<close>

definition cyrb53 :: "pystr \<Rightarrow> int \<Rightarrow> int \<Rightarrow> py_error + pybytes" where
  "cyrb53 data seed hash_size = cyrb53_mem sys_maxsize data seed hash_size"

section \<open>The storage key: \<open>create_storage_key\<close>\<close>

text \<open>
  \<open>base64.b64encode\<close> is the standard library's encoder (RFC 4648, standard alphabet,
  padded with \<open>=\<close>): each group of three bytes is read as one 24-bit number and written
  as four 6-bit digits; a final group of one or two bytes is filled with zero bits and
  written as two or three digits followed by padding. The result is a byte string.
\<close>

definition b64_alphabet :: string where
  "b64_alphabet = ''ABCDEFGHIJKLMNOPQRSTUVWXYZabcdefghijklmnopqrstuvwxyz0123456789+/''"

definition b64_digit :: "int \<Rightarrow> int" where
  "b64_digit v = of_char (b64_alphabet ! nat (v mod 64))"

definition b64_pad :: int where
  "b64_pad = of_char CHR ''=''"

fun b64encode :: "pybytes \<Rightarrow> pybytes" where
  "b64encode (a # b # c # rest) =
     (let n = a * 65536 + b * 256 + c
      in [b64_digit (n div 262144), b64_digit (n div 4096), b64_digit (n div 64), b64_digit n]
         @ b64encode rest)"
| "b64encode [a, b] =
     (let n = a * 65536 + b * 256
      in [b64_digit (n div 262144), b64_digit (n div 4096), b64_digit (n div 64), b64_pad])"
| "b64encode [a] =
     (let n = a * 65536
      in [b64_digit (n div 262144), b64_digit (n div 4096), b64_pad, b64_pad])"
| "b64encode [] = []"

text \<open>\<open>bs.decode('ascii')\<close>: a byte above 127 raises \<open>UnicodeDecodeError\<close>.\<close>

definition decode_ascii :: "pybytes \<Rightarrow> py_error + pystr" where
  "decode_ascii bs =
     (if list_all (\<lambda>b. 0 \<le> b \<and> b < 128) bs then Inr (map nat bs)
      else Inl UnicodeDecodeError)"

text \<open>
  \<^verbatim>\<open>
  def create_storage_key(hash_bytes):
      return base64.b64encode(hash_bytes).decode('ascii')
  \<close>
\<close>

definition create_storage_key :: "pybytes \<Rightarrow> py_error + pystr" where
  "create_storage_key hash_bytes = decode_ascii (b64encode hash_bytes)"

section \<open>The builder loop of \<open>build_bpe_tokenizer\<close>\<close>

text \<open>
  A record of the preload mapping, with the four fields the source stores.
\<close>

record preload_record =
  data :: pystr
  frequency :: int
  token_id :: int
  original_bpe :: pystr

text \<open>
  A Python \<open>dict\<close> keeps its keys in insertion order: it is an association list with
  distinct keys. \<open>d[k] = v\<close> replaces the value of an existing key in place and appends a
  new key at the end.
\<close>

type_synonym ('k, 'v) pydict = "('k \<times> 'v) list"

fun dict_setitem :: "('k, 'v) pydict \<Rightarrow> 'k \<Rightarrow> 'v \<Rightarrow> ('k, 'v) pydict" where
  "dict_setitem [] k v = [(k, v)]"
| "dict_setitem ((k', v') # d) k v =
     (if k' = k then (k, v) # d else (k', v') # dict_setitem d k v)"

text \<open>The two variables the loop updates: \<open>preload_data\<close> and \<open>cleaned_tokens\<close>.\<close>

record build_state =
  preload_data :: "(pystr, preload_record) pydict"
  cleaned_tokens :: "pystr list"

text \<open>
  One iteration of
  \<^verbatim>\<open>
  for token, token_id in vocab.items():
      cleaned_token = clean_bpe_token(token)
      if cleaned_token is None:
          continue
      hash_bytes = cyrb53(cleaned_token)
      storage_key = create_storage_key(hash_bytes)
      preload_data[storage_key] = {
          "data": cleaned_token, "frequency": 1,
          "token_id": token_id, "original_bpe": token }
      cleaned_tokens.append(cleaned_token)
  \<close>
  \<open>cyrb53(cleaned_token)\<close> takes the defaults \<open>seed = 0\<close> and \<open>hash_size = 64\<close>.
\<close>

definition process_token :: "build_state \<Rightarrow> pystr \<times> int \<Rightarrow> py_error + build_state" where
  "process_token st item =
     (case item of (token, tid) \<Rightarrow>
        (case clean_bpe_token token of
           None \<Rightarrow> Inr st
         | Some cleaned_token \<Rightarrow>
             (case cyrb53 cleaned_token 0 64 of
                Inl e \<Rightarrow> Inl e
              | Inr hash_bytes \<Rightarrow>
                  (case create_storage_key hash_bytes of
                     Inl e \<Rightarrow> Inl e
                   | Inr storage_key \<Rightarrow>
                       Inr \<lparr>preload_data =
                              dict_setitem (preload_data st) storage_key
                                \<lparr>data = cleaned_token, frequency = 1, token_id = tid,
                                 original_bpe = token\<rparr>,
                            cleaned_tokens = cleaned_tokens st @ [cleaned_token]\<rparr>))))"

text \<open>The loop over \<open>vocab.items()\<close>, the items in the dict's order.\<close>

fun build_loop :: "build_state \<Rightarrow> (pystr \<times> int) list \<Rightarrow> py_error + build_state" where
  "build_loop st [] = Inr st"
| "build_loop st (item # items) =
     (case process_token st item of
        Inl e \<Rightarrow> Inl e
      | Inr st' \<Rightarrow> build_loop st' items)"

text \<open>The loop started from \<open>preload_data = {}\<close> and \<open>cleaned_tokens = []\<close>.\<close>

definition build_preload :: "(pystr \<times> int) list \<Rightarrow> py_error + build_state" where
  "build_preload vocab = build_loop \<lparr>preload_data = [], cleaned_tokens = []\<rparr> vocab"

text \<open>
  The key the builder computes for a cleaned token: the fingerprint with seed 0 and length
  64, then the base64 text.
\<close>

definition storage_key_of :: "pystr \<Rightarrow> py_error + pystr" where
  "storage_key_of s =
     (case cyrb53 s 0 64 of Inl e \<Rightarrow> Inl e | Inr hash_bytes \<Rightarrow> create_storage_key hash_bytes)"

section \<open>Writing the preload file\<close>

text \<open>
  File contents are what a reader of a path can observe, so the write is modelled as the
  sequence of file operations the source performs, run on a file system: a partial map
  from paths to contents. \<open>open(p, "w")\<close> creates the file or truncates it; every block
  that reaches the file is appended; opening a missing file for reading raises. The
  serialized text (the output of \<open>json.dump\<close>) is a parameter: the list of blocks in the
  order in which they reach the file.
\<close>

type_synonym path = string

type_synonym filesystem = "path \<rightharpoonup> string"

datatype io_action =
  Open_w path | Write path string | Close path
  | Same_file_check path path | Open_r path | Copy_data path path

fun io_step :: "io_action \<Rightarrow> filesystem \<Rightarrow> py_error + filesystem" where
  "io_step (Open_w p) fs = Inr (fs(p \<mapsto> []))"
| "io_step (Write p s) fs =
     (case fs p of None \<Rightarrow> Inl OSError | Some c \<Rightarrow> Inr (fs(p \<mapsto> c @ s)))"
| "io_step (Close p) fs = Inr fs"
| "io_step (Same_file_check src dst) fs = (if src = dst then Inl OSError else Inr fs)"
| "io_step (Open_r p) fs = (case fs p of None \<Rightarrow> Inl OSError | Some c \<Rightarrow> Inr fs)"
| "io_step (Copy_data src dst) fs =
     (case (fs src, fs dst) of
        (Some c, Some d) \<Rightarrow> Inr (fs(dst \<mapsto> d @ c))
      | _ \<Rightarrow> Inl OSError)"

text \<open>
  \<open>shutil.copy2(src, dst)\<close> for two file paths is \<open>shutil.copyfile\<close> followed by a copy of
  the metadata: it raises \<open>SameFileError\<close> (an \<open>OSError\<close>) when both paths are one file,
  opens \<open>src\<close> for reading, opens \<open>dst\<close> with mode \<open>"wb"\<close>, which truncates it, and then
  streams the content of \<open>src\<close> into \<open>dst\<close>. The stream is taken as one block.
\<close>

definition copy2 :: "path \<Rightarrow> path \<Rightarrow> io_action list" where
  "copy2 src dst =
     [Same_file_check src dst, Open_r src, Open_w dst, Copy_data src dst, Close dst, Close src]"

text \<open>
  Running a sequence of operations. \<open>fault = Some n\<close> makes operation number \<open>n\<close> (from 0)
  raise \<open>OSError\<close> without effect, as a full disk or a missing permission does; the
  exception is not caught by the source, so the rest does not run. The result is the list
  of file systems after each completed operation, and the outcome.
\<close>

fun run_io ::
  "nat option \<Rightarrow> io_action list \<Rightarrow> filesystem \<Rightarrow> filesystem list \<times> (py_error + unit)" where
  "run_io fault [] fs = ([], Inr ())"
| "run_io fault (a # acts) fs =
     (if fault = Some 0 then ([], Inl OSError)
      else case io_step a fs of
             Inl e \<Rightarrow> ([], Inl e)
           | Inr fs' \<Rightarrow>
               (case run_io (map_option (\<lambda>n. n - 1) fault) acts fs' of
                  (states, outcome) \<Rightarrow> (fs' # states, outcome)))"

text \<open>
  \<open>build_bpe_baseline.py\<close>:
  \<^verbatim>\<open>
  preload_file = os.path.join(output_dir, f"tkn_bpe_preload_{vocab_size}.json")
  with open(preload_file, "w", encoding="utf-8") as f:
      json.dump(preload_data, f, indent=2, ensure_ascii=False)
  \<close>
\<close>

definition save_preload_baseline :: "path \<Rightarrow> string list \<Rightarrow> io_action list" where
  "save_preload_baseline preload_file blocks =
     Open_w preload_file # map (Write preload_file) blocks @ [Close preload_file]"

text \<open>
  \<open>corpora/bpe.py\<close>:
  \<^verbatim>\<open>
  # Save preload file (use /tmp first, then copy to target)
  temp_preload_file = f"/tmp/tkn_bpe_preload_{vocab_size}.json"
  preload_file = os.path.join(output_dir, f"tkn_bpe_preload_{vocab_size}.json")
  with open(temp_preload_file, "w", encoding="utf-8") as f:
      json.dump(token_list, f, indent=2, ensure_ascii=False)
  shutil.copy2(temp_preload_file, preload_file)
  \<close>
\<close>

definition save_preload_bpe :: "path \<Rightarrow> path \<Rightarrow> string list \<Rightarrow> io_action list" where
  "save_preload_bpe temp_preload_file preload_file blocks =
     Open_w temp_preload_file # map (Write temp_preload_file) blocks
       @ [Close temp_preload_file] @ copy2 temp_preload_file preload_file"

text \<open>
  Atomic publication at the path \<open>final\<close>, of a run started in \<open>fs0\<close>: every observed
  state shows at \<open>final\<close> either what was there before or the complete text; a failed run
  leaves \<open>final\<close> as it was, and a successful one ends with the complete text there.
\<close>

definition published_atomically ::
  "path \<Rightarrow> string \<Rightarrow> filesystem \<Rightarrow> filesystem list \<times> (py_error + unit) \<Rightarrow> bool" where
  "published_atomically final complete fs0 res =
     (list_all (\<lambda>fs. fs final = fs0 final \<or> fs final = Some complete) (fst res) \<and>
      (case snd res of
         Inl e \<Rightarrow> list_all (\<lambda>fs. fs final = fs0 final) (fst res)
       | Inr u \<Rightarrow> last (fs0 # fst res) final = Some complete))"

section \<open>Abbreviations used in the proofs\<close>

text \<open>
  The byte that the loop of \<open>cyrb53\<close> stores at index \<open>i\<close>, and the pair of accumulators
  after the final mixing.
\<close>

definition out_byte :: "int \<Rightarrow> int \<Rightarrow> nat \<Rightarrow> int" where
  "out_byte h1 h2 i =
     (if i < 4 then (drop_bit (i * 8) h2) AND 0xFF else (drop_bit ((i - 4) * 8) h1) AND 0xFF)"

definition digest :: "pystr \<Rightarrow> int \<Rightarrow> int \<times> int" where
  "digest s k = (case char_loop (0xdeadbeef XOR k) (0x41c6ce57 XOR k) s of
                   (h1, h2) \<Rightarrow> final_mixing h1 h2)"

section \<open>The reference algorithm of the specification (section 4.1)\<close>











section \<open>Properties of cleaning\<close>

lemma end_of_word_eq: "end_of_word = [60, 47, 119, 62]"
  by (simp add: end_of_word_def str_lit_def)

lemma special_tokens_eq:
  "special_tokens =
     [[60, 117, 110, 107, 62], [60, 112, 97, 100, 62], [60, 115, 62], [60, 47, 115, 62]]"
  by (simp add: special_tokens_def str_lit_def)

lemma endswith_append: "endswith (r @ suf) suf"
  by (simp add: endswith_def)

lemma endswith_iff: "endswith s suf \<longleftrightarrow> (\<exists>r. s = r @ suf)"
proof
  assume h: "endswith s suf"
  then have "s = take (length s - length suf) s @ suf"
    by (metis append_take_drop_id endswith_def)
  then show "\<exists>r. s = r @ suf" ..
next
  assume "\<exists>r. s = r @ suf"
  then show "endswith s suf"
    by (auto simp: endswith_append)
qed

lemma slice_drop_last_append: "length suf = n \<Longrightarrow> slice_drop_last n (r @ suf) = r"
  by (simp add: slice_drop_last_def)

lemma special_not_endswith: "t \<in> set special_tokens \<Longrightarrow> \<not> endswith t end_of_word"
  by (auto simp: special_tokens_eq end_of_word_eq endswith_def)

lemma clean_suffixed: "clean_bpe_token (r @ end_of_word) = Some r"
  by (simp add: clean_bpe_token_def endswith_append slice_drop_last_append end_of_word_eq)

text \<open>
  Claim C4. Cleaning is exactly this case distinction: a token ending in \<open></w>\<close> loses that
  one suffix and is kept (also when nothing remains); otherwise one of the four
  placeholders is filtered; otherwise the token is returned as it is. A token is
  filtered if and only if it is one of the four placeholders.
\<close>

theorem clean_bpe_token_cases:
  "(\<forall>r. t = r @ str_lit ''</w>'' \<longrightarrow> clean_bpe_token t = Some r) \<and>
   ((\<nexists>r. t = r @ str_lit ''</w>'') \<and>
      t \<in> {str_lit ''<unk>'', str_lit ''<pad>'', str_lit ''<s>'', str_lit ''</s>''} \<longrightarrow>
      clean_bpe_token t = None) \<and>
   ((\<nexists>r. t = r @ str_lit ''</w>'') \<and>
      t \<notin> {str_lit ''<unk>'', str_lit ''<pad>'', str_lit ''<s>'', str_lit ''</s>''} \<longrightarrow>
      clean_bpe_token t = Some t) \<and>
   (clean_bpe_token t = None \<longleftrightarrow>
      t \<in> {str_lit ''<unk>'', str_lit ''<pad>'', str_lit ''<s>'', str_lit ''</s>''})"
proof -
  let ?P = "{str_lit ''<unk>'', str_lit ''<pad>'', str_lit ''<s>'', str_lit ''</s>''}"
  have P: "set special_tokens = ?P"
    by (simp add: special_tokens_def)
  have E: "endswith t end_of_word \<longleftrightarrow> (\<exists>r. t = r @ str_lit ''</w>'')"
    by (simp add: endswith_iff end_of_word_def)
  have c1: "\<forall>r. t = r @ str_lit ''</w>'' \<longrightarrow> clean_bpe_token t = Some r"
    using clean_suffixed by (simp add: end_of_word_def)
  have c2: "(\<nexists>r. t = r @ str_lit ''</w>'') \<and> t \<in> ?P \<longrightarrow> clean_bpe_token t = None"
    unfolding clean_bpe_token_def E P by simp
  have c3: "(\<nexists>r. t = r @ str_lit ''</w>'') \<and> t \<notin> ?P \<longrightarrow> clean_bpe_token t = Some t"
    unfolding clean_bpe_token_def E P by simp
  have c4: "clean_bpe_token t = None \<longleftrightarrow> t \<in> ?P"
    using special_not_endswith [of t] unfolding clean_bpe_token_def P [symmetric] by auto
  from c1 c2 c3 c4 show ?thesis by blast
qed

theorem clean_bpe_token_cases_witness:
  "clean_bpe_token (str_lit ''running</w>'') = Some (str_lit ''running'') \<and>
   clean_bpe_token (str_lit ''</w>'') = Some [] \<and>
   clean_bpe_token (str_lit ''<pad>'') = None \<and>
   clean_bpe_token (str_lit ''dog'') = Some (str_lit ''dog'')"
proof -
  have a: "clean_bpe_token (str_lit ''running</w>'') = Some (str_lit ''running'')"
    using clean_bpe_token_cases [of "str_lit ''running</w>''"] by (simp add: str_lit_def)
  have b: "clean_bpe_token (str_lit ''</w>'') = Some []"
    using clean_bpe_token_cases [of "str_lit ''</w>''"] by simp
  have c: "clean_bpe_token (str_lit ''<pad>'') = None"
    using clean_bpe_token_cases [of "str_lit ''<pad>''"] by simp
  have "\<nexists>r. str_lit ''dog'' = r @ str_lit ''</w>''"
    by (auto simp: str_lit_def append_eq_Cons_conv)
  moreover have "str_lit ''dog'' \<notin>
      {str_lit ''<unk>'', str_lit ''<pad>'', str_lit ''<s>'', str_lit ''</s>''}"
    by (simp add: str_lit_def)
  ultimately have d: "clean_bpe_token (str_lit ''dog'') = Some (str_lit ''dog'')"
    using clean_bpe_token_cases [of "str_lit ''dog''"] by blast
  from a b c d show ?thesis by simp
qed

text \<open>
  Claim C6, as stated: whenever cleaning keeps a token, cleaning the result again gives the
  same result. The code strips one suffix per call, so this fails on a token that carries
  the marker twice (the second call strips again), and on a placeholder followed by the
  marker (the second call filters).
\<close>

theorem clean_idempotent_counterexample:
  "clean_bpe_token (str_lit ''a</w></w>'') = Some (str_lit ''a</w>'') \<and>
   clean_bpe_token (str_lit ''a</w>'') = Some (str_lit ''a'') \<and>
   str_lit ''a'' \<noteq> str_lit ''a</w>'' \<and>
   clean_bpe_token (str_lit ''<unk></w>'') = Some (str_lit ''<unk>'') \<and>
   clean_bpe_token (str_lit ''<unk>'') = None"
  by (simp add: clean_bpe_token_def endswith_def slice_drop_last_def end_of_word_def
      special_tokens_def str_lit_def)

text \<open>
  Claim C6, amended. For a token \<open>t\<close> that cleaning keeps, with cleaned form \<open>c\<close>: cleaning
  \<open>c\<close> again returns \<open>c\<close> unchanged if and only if \<open>c\<close> does not itself end in \<open></w>\<close> and
  is not one of the four placeholders. In particular a kept token that carries no
  trailing marker (such as \<open>dog\<close>) is a fixed point of cleaning.
\<close>

theorem clean_idempotent_amended:
  "clean_bpe_token t = Some c \<Longrightarrow>
     (clean_bpe_token c = Some c \<longleftrightarrow>
        \<not> endswith c (str_lit ''</w>'') \<and>
        c \<notin> {str_lit ''<unk>'', str_lit ''<pad>'', str_lit ''<s>'', str_lit ''</s>''}) \<and>
     (\<not> endswith t (str_lit ''</w>'') \<longrightarrow> clean_bpe_token c = Some c)"
proof -
  assume h: "clean_bpe_token t = Some c"
  have P: "set special_tokens =
      {str_lit ''<unk>'', str_lit ''<pad>'', str_lit ''<s>'', str_lit ''</s>''}"
    by (simp add: special_tokens_def)
  have fp: "clean_bpe_token c = Some c \<longleftrightarrow>
      \<not> endswith c end_of_word \<and> c \<notin> set special_tokens"
  proof (cases "endswith c end_of_word")
    case True
    then have "length c \<ge> 4"
      by (simp add: endswith_def end_of_word_eq)
    then have "slice_drop_last 4 c \<noteq> c"
      by (simp add: slice_drop_last_def)
    with True show ?thesis
      by (simp add: clean_bpe_token_def)
  next
    case False
    then show ?thesis
      by (simp add: clean_bpe_token_def)
  qed
  have keep: "clean_bpe_token c = Some c" if "\<not> endswith t end_of_word"
  proof -
    from h that have "c = t" "t \<notin> set special_tokens"
      by (auto simp: clean_bpe_token_def split: if_splits)
    with that fp show ?thesis by simp
  qed
  from fp keep show ?thesis
    unfolding P end_of_word_def by blast
qed

theorem clean_idempotent_amended_witness:
  "clean_bpe_token (str_lit ''dog'') = Some (str_lit ''dog'') \<and>
   clean_bpe_token (the (clean_bpe_token (str_lit ''dog''))) = clean_bpe_token (str_lit ''dog'')"
proof -
  have h: "clean_bpe_token (str_lit ''dog'') = Some (str_lit ''dog'')"
    by (simp add: clean_bpe_token_def endswith_def end_of_word_def special_tokens_def
        str_lit_def)
  have n: "\<not> endswith (str_lit ''dog'') (str_lit ''</w>'')"
    by (simp add: endswith_def str_lit_def)
  from clean_idempotent_amended [OF h] n
  have "clean_bpe_token (str_lit ''dog'') = Some (str_lit ''dog'')" by blast
  with h show ?thesis by simp
qed

section \<open>Properties of the fingerprint\<close>


lemma mask8: "(x::int) AND 0xFF = x mod 2 ^ 8"
proof -
  have "(0xFF::int) = mask 8" by (simp add: mask_eq_exp_minus_1)
  then show ?thesis by (simp only: take_bit_eq_mask [symmetric] take_bit_eq_mod)
qed

lemma out_byte_range: "0 \<le> out_byte h1 h2 i \<and> out_byte h1 h2 i \<le> 255"
  unfolding out_byte_def mask8 by auto

lemma fill_loop_fold:
  "\<forall>j \<in> set js. j < length r \<Longrightarrow>
   fill_loop h1 h2 js r = Inr (fold (\<lambda>j r. r[j := out_byte h1 h2 j]) js r)"
proof (induction js arbitrary: r)
  case Nil
  then show ?case by simp
next
  case (Cons j js)
  have rng: "0 \<le> out_byte h1 h2 j \<and> out_byte h1 h2 j \<le> 255"
    by (rule out_byte_range)
  from Cons.prems have j: "j < length r" by simp
  have step: "setitem r j (out_byte h1 h2 j) = Inr (r[j := out_byte h1 h2 j])"
    using rng j by (simp add: setitem_def)
  from Cons.prems have "\<forall>i \<in> set js. i < length (r[j := out_byte h1 h2 j])" by simp
  from Cons.IH [OF this] step show ?case
    by (simp add: out_byte_def)
qed

lemma fold_update_upt:
  "n \<le> length r \<Longrightarrow>
   fold (\<lambda>j r. r[j := f j]) [0..<n] r = map f [0..<n] @ drop n r"
proof (induction n)
  case 0
  then show ?case by simp
next
  case (Suc n)
  then have n: "n < length r" by simp
  have "fold (\<lambda>j r. r[j := f j]) [0..<Suc n] r = (map f [0..<n] @ drop n r)[n := f n]"
    using Suc by simp
  also have "\<dots> = map f [0..<n] @ (drop n r)[0 := f n]"
    by (simp add: list_update_append)
  also have "(drop n r)[0 := f n] = f n # drop (Suc n) r"
    using n by (simp add: Cons_nth_drop_Suc [symmetric])
  finally show ?case by simp
qed

lemma cyrb53_mem_digest:
  assumes "0 \<le> L" "L \<le> sys_maxsize" "L \<le> mem"
  shows "cyrb53_mem mem s k L =
    Inr (map (out_byte (fst (digest s k)) (snd (digest s k))) [0..<min 8 (nat L)]
         @ replicate (nat L - min 8 (nat L)) 0)"
proof -
  obtain a b where ab: "char_loop (0xdeadbeef XOR k) (0x41c6ce57 XOR k) s = (a, b)"
    by (cases "char_loop (0xdeadbeef XOR k) (0x41c6ce57 XOR k) s")
  obtain h1 h2 where h: "final_mixing a b = (h1, h2)"
    by (cases "final_mixing a b")
  have d: "digest s k = (h1, h2)"
    by (simp add: digest_def ab h)
  have m: "nat (min 8 L) = min 8 (nat L)"
    using assms(1) by simp
  have alloc: "bytearray mem L = Inr (replicate (nat L) 0)"
    using assms by (simp add: bytearray_def)
  have "cyrb53_mem mem s k L = fill_loop h1 h2 [0..<min 8 (nat L)] (replicate (nat L) 0)"
    by (simp add: cyrb53_mem_def ab h alloc m Let_def)
  also have "\<dots> = Inr (fold (\<lambda>j r. r[j := out_byte h1 h2 j]) [0..<min 8 (nat L)]
                          (replicate (nat L) 0))"
    by (rule fill_loop_fold) simp
  also have "fold (\<lambda>j r. r[j := out_byte h1 h2 j]) [0..<min 8 (nat L)] (replicate (nat L) 0)
      = map (out_byte h1 h2) [0..<min 8 (nat L)] @ drop (min 8 (nat L)) (replicate (nat L) 0)"
    by (rule fold_update_upt) simp
  finally show ?thesis
    by (simp add: d)
qed


lemma cyrb53_mem_eq: "L \<le> mem \<Longrightarrow> cyrb53_mem mem s k L = cyrb53 s k L"
  by (simp add: cyrb53_def cyrb53_mem_def bytearray_def)

lemma cyrb53_digest:
  assumes "0 \<le> L" "L \<le> sys_maxsize"
  shows "cyrb53 s k L =
    Inr (map (out_byte (fst (digest s k)) (snd (digest s k))) [0..<min 8 (nat L)]
         @ replicate (nat L - min 8 (nat L)) 0)"
  unfolding cyrb53_def using assms by (simp add: cyrb53_mem_digest)

lemma sys_maxsize_64: "64 \<le> sys_maxsize"
  by (simp add: sys_maxsize_def)




















lemma cyrb53_take:
  assumes "0 \<le> L1" "L1 \<le> L2" "L2 \<le> sys_maxsize" "L2 \<le> mem"
  shows "\<exists>b1 b2. cyrb53_mem mem s k L1 = Inr b1 \<and> cyrb53_mem mem s k L2 = Inr b2 \<and>
           take (nat L1) b2 = b1"
proof -
  let ?f = "out_byte (fst (digest s k)) (snd (digest s k))"
  let ?b = "\<lambda>n. map ?f [0..<min 8 n] @ replicate (n - min 8 n) 0"
  from assms have L1: "0 \<le> L1" "L1 \<le> sys_maxsize" "L1 \<le> mem"
    and L2: "0 \<le> L2" "L2 \<le> sys_maxsize" "L2 \<le> mem"
    by simp_all
  have n: "nat L1 \<le> nat L2" using assms by simp
  have "take (nat L1) (?b (nat L2)) = ?b (nat L1)"
  proof (cases "nat L1 \<le> 8")
    case True
    with n have "min 8 (nat L1) = nat L1" "nat L1 \<le> min 8 (nat L2)" by simp_all
    then show ?thesis
      by (simp add: take_map)
  next
    case False
    with n have "min 8 (nat L1) = 8" "min 8 (nat L2) = 8" by simp_all
    then show ?thesis
      using n by simp
  qed
  with cyrb53_mem_digest [OF L1, of s k] cyrb53_mem_digest [OF L2, of s k]
  show ?thesis by simp
qed

lemma cyrb53_extend:
  assumes "8 \<le> L1" "L1 \<le> L2" "L2 \<le> sys_maxsize" "L2 \<le> mem"
  shows "\<exists>b1. cyrb53_mem mem s k L1 = Inr b1 \<and>
           cyrb53_mem mem s k L2 = Inr (b1 @ replicate (nat (L2 - L1)) 0)"
proof -
  from assms have L1: "0 \<le> L1" "L1 \<le> sys_maxsize" "L1 \<le> mem"
    and L2: "0 \<le> L2" "L2 \<le> sys_maxsize" "L2 \<le> mem"
    by simp_all
  from assms have m: "min 8 (nat L1) = 8" "min 8 (nat L2) = 8" by simp_all
  have "nat L2 - 8 = (nat L1 - 8) + nat (L2 - L1)"
    using assms by simp
  then have "replicate (nat L2 - 8) (0::int) =
      replicate (nat L1 - 8) 0 @ replicate (nat (L2 - L1)) 0"
    by (simp only: replicate_add)
  with cyrb53_mem_digest [OF L1, of s k] cyrb53_mem_digest [OF L2, of s k] m
  show ?thesis by simp
qed

lemma cyrb53_padding:
  assumes "0 \<le> L" "L \<le> sys_maxsize" "L \<le> mem"
    and "cyrb53_mem mem s k L = Inr b" "nat (min 8 L) \<le> i" "i < length b"
  shows "b ! i = 0"
proof -
  define m where "m = min 8 (nat L)"
  define hs where "hs = map (out_byte (fst (digest s k)) (snd (digest s k))) [0..<m]"
  have len: "length hs = m"
    by (simp add: hs_def)
  have mL: "m \<le> nat L"
    by (simp add: m_def)
  from assms(1) have "nat (min 8 L) = m"
    by (simp add: m_def)
  with assms(5) have i: "m \<le> i"
    by simp
  from cyrb53_mem_digest [OF assms(1-3), of s k] assms(4)
  have b: "b = hs @ replicate (nat L - m) 0"
    by (simp add: hs_def m_def)
  with assms(6) len mL have "i < nat L"
    by simp
  with i have "i - m < nat L - m"
    by simp
  with i len show ?thesis
    by (simp add: b nth_append)
qed

text \<open>
  Claim C5, as stated: for any lengths \<open>L1 \<le> L2\<close> the longer output is the shorter one
  followed by zero bytes only. Below 8 this fails: going from length 4 to length 8 appends
  the four bytes of \<open>h1\<close>, which are not zero for the empty string with seed 0.
\<close>

theorem cyrb53_cross_length_counterexample:
  "cyrb53 [] 0 4 = Inr [184, 220, 139, 72] \<and>
   cyrb53 [] 0 8 = Inr [184, 220, 139, 72, 131, 141, 238, 26] \<and>
   cyrb53 [] 0 8 \<noteq> Inr ([184, 220, 139, 72] @ [0, 0, 0, 0])"
proof -
  have a: "cyrb53 [] 0 4 = Inr [184, 220, 139, 72]"
    by code_simp
  have b: "cyrb53 [] 0 8 = Inr [184, 220, 139, 72, 131, 141, 238, 26]"
    by code_simp
  from a b show ?thesis by simp
qed

text \<open>
  Claim C5, amended. For every string and seed, and lengths whose buffers can be
  allocated: the outputs of lengths 8 and 64 agree on their first 8 bytes; for any lengths
  \<open>0 \<le> L1 \<le> L2\<close> the shorter output is the first \<open>L1\<close> bytes of the longer one; when
  moreover \<open>8 \<le> L1\<close> the longer output is the shorter one followed by \<open>L2 - L1\<close> zero
  bytes; and every byte at an index from \<open>min 8 L2\<close> on is zero.
\<close>

theorem cyrb53_cross_length:
  "(64 \<le> mem \<longrightarrow>
      (\<exists>b8 b64. cyrb53_mem mem s k 8 = Inr b8 \<and> cyrb53_mem mem s k 64 = Inr b64 \<and>
         take 8 b64 = b8)) \<and>
   (0 \<le> L1 \<and> L1 \<le> L2 \<and> L2 \<le> sys_maxsize \<and> L2 \<le> mem \<longrightarrow>
      (\<exists>b1 b2. cyrb53_mem mem s k L1 = Inr b1 \<and> cyrb53_mem mem s k L2 = Inr b2 \<and>
         take (nat L1) b2 = b1 \<and>
         (8 \<le> L1 \<longrightarrow> b2 = b1 @ replicate (nat (L2 - L1)) 0) \<and>
         (\<forall>i. nat (min 8 L2) \<le> i \<and> i < length b2 \<longrightarrow> b2 ! i = 0)))"
proof
  show "64 \<le> mem \<longrightarrow>
      (\<exists>b8 b64. cyrb53_mem mem s k 8 = Inr b8 \<and> cyrb53_mem mem s k 64 = Inr b64 \<and>
         take 8 b64 = b8)"
  proof
    assume "64 \<le> mem"
    with cyrb53_take [of 8 64 mem s k] sys_maxsize_64
    show "\<exists>b8 b64. cyrb53_mem mem s k 8 = Inr b8 \<and> cyrb53_mem mem s k 64 = Inr b64 \<and>
         take 8 b64 = b8"
      by simp
  qed
next
  show "0 \<le> L1 \<and> L1 \<le> L2 \<and> L2 \<le> sys_maxsize \<and> L2 \<le> mem \<longrightarrow>
      (\<exists>b1 b2. cyrb53_mem mem s k L1 = Inr b1 \<and> cyrb53_mem mem s k L2 = Inr b2 \<and>
         take (nat L1) b2 = b1 \<and>
         (8 \<le> L1 \<longrightarrow> b2 = b1 @ replicate (nat (L2 - L1)) 0) \<and>
         (\<forall>i. nat (min 8 L2) \<le> i \<and> i < length b2 \<longrightarrow> b2 ! i = 0))"
  proof
    assume h: "0 \<le> L1 \<and> L1 \<le> L2 \<and> L2 \<le> sys_maxsize \<and> L2 \<le> mem"
    then have L1: "0 \<le> L1" and L12: "L1 \<le> L2" and L2: "0 \<le> L2"
      and mx: "L2 \<le> sys_maxsize" and me: "L2 \<le> mem"
      by simp_all
    from cyrb53_take [OF L1 L12 mx me, of s k] obtain b1 b2
      where b: "cyrb53_mem mem s k L1 = Inr b1" "cyrb53_mem mem s k L2 = Inr b2"
        "take (nat L1) b2 = b1"
      by blast
    have ext: "8 \<le> L1 \<longrightarrow> b2 = b1 @ replicate (nat (L2 - L1)) 0"
    proof
      assume "8 \<le> L1"
      from cyrb53_extend [OF this L12 mx me, of s k] b(1) b(2)
      show "b2 = b1 @ replicate (nat (L2 - L1)) 0" by simp
    qed
    have pad: "\<forall>i. nat (min 8 L2) \<le> i \<and> i < length b2 \<longrightarrow> b2 ! i = 0"
      using cyrb53_padding [OF L2 mx me b(2)] by blast
    from b ext pad show "\<exists>b1 b2. cyrb53_mem mem s k L1 = Inr b1 \<and>
         cyrb53_mem mem s k L2 = Inr b2 \<and>
         take (nat L1) b2 = b1 \<and>
         (8 \<le> L1 \<longrightarrow> b2 = b1 @ replicate (nat (L2 - L1)) 0) \<and>
         (\<forall>i. nat (min 8 L2) \<le> i \<and> i < length b2 \<longrightarrow> b2 ! i = 0)"
      by blast
  qed
qed

text \<open>The lengths 8 and 64 at the string \<open>a\<close> with seed 0, on a machine that provides 64 bytes.\<close>

theorem cyrb53_cross_length_witness:
  "cyrb53_mem 64 (str_lit ''a'') 0 8 = Inr [167, 43, 28, 80, 1, 121, 201, 130] \<and>
   cyrb53_mem 64 (str_lit ''a'') 0 64 =
     Inr ([167, 43, 28, 80, 1, 121, 201, 130] @ replicate 56 0)"
proof -
  have a: "cyrb53_mem 64 (str_lit ''a'') 0 8 = Inr [167, 43, 28, 80, 1, 121, 201, 130]"
    by code_simp
  have "(0::int) \<le> 8 \<and> (8::int) \<le> 64 \<and> 64 \<le> sys_maxsize \<and> (64::int) \<le> 64"
    by (simp add: sys_maxsize_def)
  with cyrb53_cross_length [of 64 "str_lit ''a''" 0 8 64]
  obtain b1 b2 where b: "cyrb53_mem 64 (str_lit ''a'') 0 8 = Inr b1"
      "cyrb53_mem 64 (str_lit ''a'') 0 64 = Inr b2"
      "b2 = b1 @ replicate (nat (64 - 8)) 0"
    by blast
  from a b(1) have "b1 = [167, 43, 28, 80, 1, 121, 201, 130]"
    by simp
  with b(2) b(3) a show ?thesis
    by simp
qed

section \<open>Properties of the storage key and of the builder loop\<close>

lemma b64_alphabet_ascii:
  "\<forall>c \<in> set b64_alphabet. (0::int) \<le> of_char c \<and> (of_char c :: int) < 128"
  by (simp add: b64_alphabet_def)

lemma length_b64_alphabet: "length b64_alphabet = 64"
  by (simp add: b64_alphabet_def)

lemma b64_digit_ascii: "0 \<le> b64_digit v \<and> b64_digit v < 128"
proof -
  have "nat (v mod 64) < length b64_alphabet"
    by (simp add: length_b64_alphabet)
  then have "b64_alphabet ! nat (v mod 64) \<in> set b64_alphabet"
    by (rule nth_mem)
  with b64_alphabet_ascii show ?thesis
    by (simp add: b64_digit_def)
qed

lemma b64_pad_ascii: "0 \<le> b64_pad \<and> b64_pad < 128"
  by (simp add: b64_pad_def)

lemma b64encode_ascii: "list_all (\<lambda>b. 0 \<le> b \<and> b < 128) (b64encode bs)"
  by (induction bs rule: b64encode.induct)
     (simp_all add: Let_def b64_digit_ascii b64_pad_ascii)

lemma length_b64encode: "length (b64encode bs) = 4 * ((length bs + 2) div 3)"
proof (induction bs rule: b64encode.induct)
  case (1 a b c rest)
  have "(length (a # b # c # rest) + 2) div 3 = Suc ((length rest + 2) div 3)"
    by simp
  with 1 show ?case
    by (simp add: Let_def)
qed (simp_all add: Let_def)

lemma create_storage_key_total: "create_storage_key bs = Inr (map nat (b64encode bs))"
  by (simp add: create_storage_key_def decode_ascii_def b64encode_ascii)

lemma storage_key_of_total:
  "\<exists>hb. cyrb53 s 0 64 = Inr hb \<and> length hb = 64 \<and>
        storage_key_of s = Inr (map nat (b64encode hb))"
proof -
  have "(0::int) \<le> 64" by simp
  from cyrb53_digest [OF this sys_maxsize_64, of s 0]
  obtain hb where hb: "cyrb53 s 0 64 = Inr hb" "length hb = 64"
    by simp
  then have "storage_key_of s = Inr (map nat (b64encode hb))"
    by (simp add: storage_key_of_def create_storage_key_total)
  with hb show ?thesis by blast
qed

lemma length_storage_key_of: "storage_key_of s = Inr k \<Longrightarrow> length k = 88"
  using storage_key_of_total [of s] by (auto simp: length_b64encode)

lemma process_token_filtered:
  "clean_bpe_token token = None \<Longrightarrow> process_token st (token, tid) = Inr st"
  by (simp add: process_token_def)

lemma process_token_kept:
  assumes "clean_bpe_token token = Some c"
  shows "\<exists>k. storage_key_of c = Inr k \<and>
     process_token st (token, tid) =
       Inr \<lparr>preload_data = dict_setitem (preload_data st) k
               \<lparr>data = c, frequency = 1, token_id = tid, original_bpe = token\<rparr>,
            cleaned_tokens = cleaned_tokens st @ [c]\<rparr>"
proof -
  from storage_key_of_total [of c] obtain hb
    where hb: "cyrb53 c 0 64 = Inr hb" "storage_key_of c = Inr (map nat (b64encode hb))"
    by blast
  with assms show ?thesis
    by (simp add: process_token_def create_storage_key_total)
qed

lemma set_dict_setitem: "set (dict_setitem d k v) \<subseteq> insert (k, v) (set d)"
  by (induction d k v rule: dict_setitem.induct) auto

lemma map_of_dict_setitem: "map_of (dict_setitem d k v) = (map_of d)(k \<mapsto> v)"
  by (induction d k v rule: dict_setitem.induct) auto

lemma keys_dict_setitem: "fst ` set (dict_setitem d k v) = insert k (fst ` set d)"
  by (induction d k v rule: dict_setitem.induct) auto

lemma distinct_dict_setitem:
  "distinct (map fst d) \<Longrightarrow> distinct (map fst (dict_setitem d k v))"
  by (induction d k v rule: dict_setitem.induct) (auto simp: keys_dict_setitem)

lemma build_loop_append:
  "build_loop st (xs @ ys) =
     (case build_loop st xs of Inl e \<Rightarrow> Inl e | Inr st' \<Rightarrow> build_loop st' ys)"
  by (induction xs arbitrary: st) (simp_all split: sum.splits)

lemma process_token_round_trip:
  assumes "\<forall>(k, r) \<in> set (preload_data st). storage_key_of (data r) = Inr k"
  shows "\<exists>st'. process_token st item = Inr st' \<and>
           (\<forall>(k, r) \<in> set (preload_data st'). storage_key_of (data r) = Inr k)"
proof (cases item)
  case (Pair token tid)
  show ?thesis
  proof (cases "clean_bpe_token token")
    case None
    with Pair assms show ?thesis
      by (simp add: process_token_filtered)
  next
    case (Some c)
    from process_token_kept [OF Some, of st tid] obtain k
      where k: "storage_key_of c = Inr k"
        and st': "process_token st (token, tid) =
          Inr \<lparr>preload_data = dict_setitem (preload_data st) k
                  \<lparr>data = c, frequency = 1, token_id = tid, original_bpe = token\<rparr>,
               cleaned_tokens = cleaned_tokens st @ [c]\<rparr>"
      by blast
    let ?rec = "\<lparr>data = c, frequency = 1, token_id = tid, original_bpe = token\<rparr>"
    have "\<forall>(k', r) \<in> set (dict_setitem (preload_data st) k ?rec).
            storage_key_of (data r) = Inr k'"
      using set_dict_setitem [of "preload_data st" k ?rec] assms k by auto
    with st' Pair show ?thesis
      by simp
  qed
qed

lemma build_loop_round_trip:
  assumes "\<forall>(k, r) \<in> set (preload_data st). storage_key_of (data r) = Inr k"
  shows "\<exists>st'. build_loop st vocab = Inr st' \<and>
           (\<forall>(k, r) \<in> set (preload_data st'). storage_key_of (data r) = Inr k)"
  using assms
proof (induction vocab arbitrary: st)
  case Nil
  then show ?case by simp
next
  case (Cons item vocab)
  from process_token_round_trip [OF Cons.prems, of item] obtain st1
    where st1: "process_token st item = Inr st1"
      and inv: "\<forall>(k, r) \<in> set (preload_data st1). storage_key_of (data r) = Inr k"
    by blast
  from Cons.IH [OF inv] st1 show ?case
    by simp
qed

lemma build_preload_round_trip:
  "\<exists>st. build_preload vocab = Inr st \<and>
        (\<forall>(k, r) \<in> set (preload_data st). storage_key_of (data r) = Inr k)"
  unfolding build_preload_def by (rule build_loop_round_trip) simp




text \<open>
  Claim C9. After any number \<open>n\<close> of loop iterations (the loop run on the first \<open>n\<close>
  items, from which the full run continues), every key of the mapping is the base64 text
  of a 64-byte fingerprint computed with seed 0, and so has the one encoded length 88.
\<close>

theorem keys_fixed_length:
  "\<exists>st. build_preload (take n vocab) = Inr st \<and>
        build_preload vocab = build_loop st (drop n vocab) \<and>
        (\<forall>k \<in> fst ` set (preload_data st).
           length k = 88 \<and>
           (\<exists>s hb. cyrb53 s 0 64 = Inr hb \<and> length hb = 64 \<and> create_storage_key hb = Inr k))"
proof -
  from build_preload_round_trip [of "take n vocab"] obtain st
    where st: "build_preload (take n vocab) = Inr st"
      and inv: "\<forall>(k, r) \<in> set (preload_data st). storage_key_of (data r) = Inr k"
    by blast
  have "build_preload vocab =
      build_loop \<lparr>preload_data = [], cleaned_tokens = []\<rparr> (take n vocab @ drop n vocab)"
    by (simp add: build_preload_def)
  also have "\<dots> = build_loop st (drop n vocab)"
    using st unfolding build_loop_append build_preload_def by simp
  finally have run: "build_preload vocab = build_loop st (drop n vocab)" .
  have "length k = 88 \<and>
      (\<exists>s hb. cyrb53 s 0 64 = Inr hb \<and> length hb = 64 \<and> create_storage_key hb = Inr k)"
    if "k \<in> fst ` set (preload_data st)" for k
  proof -
    from that obtain r where "(k, r) \<in> set (preload_data st)"
      by auto
    with inv have key: "storage_key_of (data r) = Inr k"
      by auto
    from storage_key_of_total [of "data r"] key obtain hb
      where "cyrb53 (data r) 0 64 = Inr hb" "length hb = 64" "create_storage_key hb = Inr k"
      by (auto simp: create_storage_key_total)
    with length_storage_key_of [OF key] show ?thesis
      by blast
  qed
  with st run show ?thesis
    by blast
qed

text \<open>The state after the first item of \<open>{"run": 0, "<pad>": 1}\<close>, and its key's length.\<close>

theorem keys_fixed_length_witness:
  "build_preload (take 1 [(str_lit ''run'', 0), (str_lit ''<pad>'', 1)]) =
     Inr \<lparr>preload_data =
            [(str_lit ''6sAnTaORJ7gAAAAAAAAAAAAAAAAAAAAAAAAAAAAAAAAAAAAAAAAAAAAAAAAAAAAAAAAAAAAAAAAAAAAAAAAAAA=='',
              \<lparr>data = str_lit ''run'', frequency = 1, token_id = 0,
               original_bpe = str_lit ''run''\<rparr>)],
          cleaned_tokens = [str_lit ''run'']\<rparr> \<and>
   length (str_lit ''6sAnTaORJ7gAAAAAAAAAAAAAAAAAAAAAAAAAAAAAAAAAAAAAAAAAAAAAAAAAAAAAAAAAAAAAAAAAAAAAAAAAAA=='') = 88"
proof -
  let ?V = "[(str_lit ''run'', 0), (str_lit ''<pad>'', 1)]"
  let ?K = "str_lit ''6sAnTaORJ7gAAAAAAAAAAAAAAAAAAAAAAAAAAAAAAAAAAAAAAAAAAAAAAAAAAAAAAAAAAAAAAAAAAAAAAAAAAA==''"
  have run: "build_preload (take 1 ?V) =
     Inr \<lparr>preload_data =
            [(?K, \<lparr>data = str_lit ''run'', frequency = 1, token_id = 0,
               original_bpe = str_lit ''run''\<rparr>)],
          cleaned_tokens = [str_lit ''run'']\<rparr>"
    by code_simp
  from keys_fixed_length [of 1 ?V] run have "length ?K = 88"
    by auto
  with run show ?thesis
    by blast
qed

text \<open>
  Claim C7. On the vocabulary \<open>{"run": 0, "running</w>": 1, "<unk>": 2}\<close> the loop returns
  a mapping of exactly two records under two different keys, with data \<open>run\<close> and
  \<open>running\<close>; no record has \<open><unk>\<close> as its data or as its original form; and each key is
  the base64 text of the fingerprint of the record's data.
\<close>

theorem build_three_tokens:
  "\<exists>st. build_preload
          [(str_lit ''run'', 0), (str_lit ''running</w>'', 1), (str_lit ''<unk>'', 2)] = Inr st \<and>
     preload_data st =
       [(str_lit ''6sAnTaORJ7gAAAAAAAAAAAAAAAAAAAAAAAAAAAAAAAAAAAAAAAAAAAAAAAAAAAAAAAAAAAAAAAAAAAAAAAAAAA=='',
         \<lparr>data = str_lit ''run'', frequency = 1, token_id = 0,
          original_bpe = str_lit ''run''\<rparr>),
        (str_lit ''+5qttV/pZTYAAAAAAAAAAAAAAAAAAAAAAAAAAAAAAAAAAAAAAAAAAAAAAAAAAAAAAAAAAAAAAAAAAAAAAAAAAA=='',
         \<lparr>data = str_lit ''running'', frequency = 1, token_id = 1,
          original_bpe = str_lit ''running</w>''\<rparr>)] \<and>
     length (preload_data st) = 2 \<and>
     distinct (map fst (preload_data st)) \<and>
     map (data \<circ> snd) (preload_data st) = [str_lit ''run'', str_lit ''running''] \<and>
     str_lit ''<unk>'' \<notin> set (map (data \<circ> snd) (preload_data st)) \<and>
     str_lit ''<unk>'' \<notin> set (map (original_bpe \<circ> snd) (preload_data st)) \<and>
     list_all (\<lambda>(k, r). case cyrb53 (data r) 0 64 of
                           Inl e \<Rightarrow> False
                         | Inr hb \<Rightarrow> create_storage_key hb = Inr k) (preload_data st)"
proof -
  let ?K1 = "str_lit ''6sAnTaORJ7gAAAAAAAAAAAAAAAAAAAAAAAAAAAAAAAAAAAAAAAAAAAAAAAAAAAAAAAAAAAAAAAAAAAAAAAAAAA==''"
  let ?K2 = "str_lit ''+5qttV/pZTYAAAAAAAAAAAAAAAAAAAAAAAAAAAAAAAAAAAAAAAAAAAAAAAAAAAAAAAAAAAAAAAAAAAAAAAAAAA==''"
  let ?R1 = "\<lparr>data = str_lit ''run'', frequency = 1, token_id = 0,
          original_bpe = str_lit ''run''\<rparr>"
  let ?R2 = "\<lparr>data = str_lit ''running'', frequency = 1, token_id = 1,
          original_bpe = str_lit ''running</w>''\<rparr>"
  have run: "build_preload
          [(str_lit ''run'', 0), (str_lit ''running</w>'', 1), (str_lit ''<unk>'', 2)] =
      Inr \<lparr>preload_data = [(?K1, ?R1), (?K2, ?R2)],
           cleaned_tokens = [str_lit ''run'', str_lit ''running'']\<rparr>"
    by code_simp
  have ne: "?K1 \<noteq> ?K2"
    by (simp add: str_lit_def)
  have d: "str_lit ''<unk>'' \<noteq> str_lit ''run''" "str_lit ''<unk>'' \<noteq> str_lit ''running''"
      "str_lit ''<unk>'' \<noteq> str_lit ''running</w>''"
    by (simp_all add: str_lit_def)
  have k1: "storage_key_of (str_lit ''run'') = Inr ?K1"
    by code_simp
  have k2: "storage_key_of (str_lit ''running'') = Inr ?K2"
    by code_simp
  from k1 k2 have rt:
    "list_all (\<lambda>(k, r). case cyrb53 (data r) 0 64 of
                           Inl e \<Rightarrow> False
                         | Inr hb \<Rightarrow> create_storage_key hb = Inr k) [(?K1, ?R1), (?K2, ?R2)]"
    by (simp add: storage_key_of_def split: sum.splits)
  from run ne d rt show ?thesis
    by simp
qed

text \<open>
  Claim C10. The suffix test comes first: a token ending in \<open></w>\<close> loses exactly that one
  final suffix and is never filtered, whatever remains. So \<open><unk></w>\<close> is cleaned to
  \<open><unk>\<close>, and the loop iteration on it, from any state, stores under the key of \<open><unk>\<close>
  a record whose data is the placeholder text.
\<close>

theorem suffix_before_placeholder:
  "clean_bpe_token (r @ str_lit ''</w>'') = Some r \<and>
   clean_bpe_token (str_lit ''<unk></w>'') = Some (str_lit ''<unk>'') \<and>
   (\<exists>k st'. storage_key_of (str_lit ''<unk>'') = Inr k \<and>
      process_token st (str_lit ''<unk></w>'', tid) = Inr st' \<and>
      map_of (preload_data st') k =
        Some \<lparr>data = str_lit ''<unk>'', frequency = 1, token_id = tid,
              original_bpe = str_lit ''<unk></w>''\<rparr>)"
proof -
  have strip: "clean_bpe_token (r @ str_lit ''</w>'') = Some r" for r
    using clean_suffixed [of r] by (simp add: end_of_word_def)
  have "str_lit ''<unk></w>'' = str_lit ''<unk>'' @ str_lit ''</w>''"
    by (simp add: str_lit_def)
  with strip [of "str_lit ''<unk>''"]
  have unk: "clean_bpe_token (str_lit ''<unk></w>'') = Some (str_lit ''<unk>'')"
    by simp
  from process_token_kept [OF unk, of st tid] obtain k
    where k: "storage_key_of (str_lit ''<unk>'') = Inr k"
      and st': "process_token st (str_lit ''<unk></w>'', tid) =
        Inr \<lparr>preload_data = dict_setitem (preload_data st) k
                \<lparr>data = str_lit ''<unk>'', frequency = 1, token_id = tid,
                 original_bpe = str_lit ''<unk></w>''\<rparr>,
             cleaned_tokens = cleaned_tokens st @ [str_lit ''<unk>'']\<rparr>"
    by blast
  from k st' have "\<exists>k st'. storage_key_of (str_lit ''<unk>'') = Inr k \<and>
      process_token st (str_lit ''<unk></w>'', tid) = Inr st' \<and>
      map_of (preload_data st') k =
        Some \<lparr>data = str_lit ''<unk>'', frequency = 1, token_id = tid,
              original_bpe = str_lit ''<unk></w>''\<rparr>"
    by (simp add: map_of_dict_setitem)
  with strip unk show ?thesis
    by blast
qed

text \<open>
  The placeholder \<open></s></w>\<close>, and a whole run: \<open><unk>\<close> itself is skipped, \<open><unk></w>\<close>
  gives the only record.
\<close>

theorem suffix_before_placeholder_witness:
  "clean_bpe_token (str_lit ''</s></w>'') = Some (str_lit ''</s>'') \<and>
   build_preload [(str_lit ''<unk>'', 0), (str_lit ''<unk></w>'', 7)] =
     Inr \<lparr>preload_data =
            [(str_lit ''h3aRgDSNi/IAAAAAAAAAAAAAAAAAAAAAAAAAAAAAAAAAAAAAAAAAAAAAAAAAAAAAAAAAAAAAAAAAAAAAAAAAAA=='',
              \<lparr>data = str_lit ''<unk>'', frequency = 1, token_id = 7,
               original_bpe = str_lit ''<unk></w>''\<rparr>)],
          cleaned_tokens = [str_lit ''<unk>'']\<rparr>"
proof -
  have "str_lit ''</s></w>'' = str_lit ''</s>'' @ str_lit ''</w>''"
    by (simp add: str_lit_def)
  with suffix_before_placeholder [of "str_lit ''</s>''"]
  have a: "clean_bpe_token (str_lit ''</s></w>'') = Some (str_lit ''</s>'')"
    by simp
  have b: "build_preload [(str_lit ''<unk>'', 0), (str_lit ''<unk></w>'', 7)] =
     Inr \<lparr>preload_data =
            [(str_lit ''h3aRgDSNi/IAAAAAAAAAAAAAAAAAAAAAAAAAAAAAAAAAAAAAAAAAAAAAAAAAAAAAAAAAAAAAAAAAAAAAAAAAAA=='',
              \<lparr>data = str_lit ''<unk>'', frequency = 1, token_id = 7,
               original_bpe = str_lit ''<unk></w>''\<rparr>)],
          cleaned_tokens = [str_lit ''<unk>'']\<rparr>"
    by code_simp
  from a b show ?thesis
    by simp
qed

section \<open>Properties of the file write\<close>

text \<open>
  The builder of \<open>corpora/bpe.py\<close> stages the text in a temporary file: as long as the
  temporary path is not the final one, a fault while the temporary file is opened,
  written or closed ends the run with an exception and leaves the final path as it was in
  every observed state.
\<close>

lemma run_io_temp_writes:
  assumes "t \<noteq> f" "n \<le> length bs"
  shows "list_all (\<lambda>s. s f = fs f) (fst (run_io (Some n) (map (Write t) bs @ a # rest) fs)) \<and>
         isl (snd (run_io (Some n) (map (Write t) bs @ a # rest) fs))"
  using assms(2)
proof (induction bs arbitrary: n fs)
  case Nil
  then show ?case by simp
next
  case (Cons b bs)
  show ?case
  proof (cases n)
    case 0
    then show ?thesis by simp
  next
    case (Suc m)
    show ?thesis
    proof (cases "fs t")
      case None
      with Suc show ?thesis by simp
    next
      case (Some c)
      let ?fs' = "fs(t \<mapsto> c @ b)"
      from Cons.prems Suc have "m \<le> length bs" by simp
      then have "list_all (\<lambda>s. s f = ?fs' f)
              (fst (run_io (Some m) (map (Write t) bs @ a # rest) ?fs')) \<and>
            isl (snd (run_io (Some m) (map (Write t) bs @ a # rest) ?fs'))"
        by (rule Cons.IH)
      moreover have eq: "?fs' f = fs f"
        using assms(1) by simp
      ultimately have "list_all (\<lambda>s. s f = fs f)
              (fst (run_io (Some m) (map (Write t) bs @ a # rest) ?fs')) \<and>
            isl (snd (run_io (Some m) (map (Write t) bs @ a # rest) ?fs'))"
        by (simp only:)
      moreover have "run_io (Some n) (map (Write t) (b # bs) @ a # rest) fs =
          (?fs' # fst (run_io (Some m) (map (Write t) bs @ a # rest) ?fs'),
           snd (run_io (Some m) (map (Write t) bs @ a # rest) ?fs'))"
        using Suc Some by (simp add: case_prod_beta)
      ultimately show ?thesis
        using eq by (simp only: fst_conv snd_conv list.pred_inject)
    qed
  qed
qed

lemma save_preload_bpe_staged:
  assumes "temp \<noteq> final" "n \<le> Suc (length blocks)"
  shows "list_all (\<lambda>s. s final = fs final)
           (fst (run_io (Some n) (save_preload_bpe temp final blocks) fs)) \<and>
         isl (snd (run_io (Some n) (save_preload_bpe temp final blocks) fs))"
proof (cases n)
  case 0
  then show ?thesis
    by (simp add: save_preload_bpe_def)
next
  case (Suc m)
  let ?fs' = "fs(temp \<mapsto> [])"
  from assms(2) Suc have "m \<le> length blocks" by simp
  then have "list_all (\<lambda>s. s final = ?fs' final)
          (fst (run_io (Some m) (map (Write temp) blocks @ Close temp # copy2 temp final) ?fs')) \<and>
        isl (snd (run_io (Some m) (map (Write temp) blocks @ Close temp # copy2 temp final) ?fs'))"
    by (rule run_io_temp_writes [OF assms(1)])
  moreover have eq: "?fs' final = fs final"
    using assms(1) by simp
  ultimately have "list_all (\<lambda>s. s final = fs final)
          (fst (run_io (Some m) (map (Write temp) blocks @ Close temp # copy2 temp final) ?fs')) \<and>
        isl (snd (run_io (Some m) (map (Write temp) blocks @ Close temp # copy2 temp final) ?fs'))"
    by (simp only:)
  moreover have "run_io (Some n) (save_preload_bpe temp final blocks) fs =
      (?fs' # fst (run_io (Some m) (map (Write temp) blocks @ Close temp # copy2 temp final) ?fs'),
       snd (run_io (Some m) (map (Write temp) blocks @ Close temp # copy2 temp final) ?fs'))"
    using Suc by (simp add: save_preload_bpe_def case_prod_beta)
  ultimately show ?thesis
    using eq by (simp only: fst_conv snd_conv list.pred_inject)
qed

text \<open>
  The copy that follows is not atomic: \<open>shutil.copy2\<close> truncates the final path before it
  streams. With an earlier artifact \<open>old\<close> at the final path and the text \<open>[]\<close> of an
  empty token list, a reader sees an empty file between the two, and a fault of the
  stream leaves the empty file there.
\<close>

lemma save_preload_bpe_not_atomic:
  "map (\<lambda>fs. fs ''out.json'')
     (fst (run_io None (save_preload_bpe ''/tmp/out.json'' ''out.json'' [''[]''])
             [''out.json'' \<mapsto> ''old''])) =
     [Some ''old'', Some ''old'', Some ''old'', Some ''old'', Some ''old'',
      Some [], Some ''[]'', Some ''[]'', Some ''[]''] \<and>
   \<not> published_atomically ''out.json'' ''[]'' [''out.json'' \<mapsto> ''old'']
       (run_io None (save_preload_bpe ''/tmp/out.json'' ''out.json'' [''[]''])
          [''out.json'' \<mapsto> ''old'']) \<and>
   snd (run_io (Some 6) (save_preload_bpe ''/tmp/out.json'' ''out.json'' [''[]''])
          [''out.json'' \<mapsto> ''old'']) = Inl OSError \<and>
   last (fst (run_io (Some 6) (save_preload_bpe ''/tmp/out.json'' ''out.json'' [''[]''])
                [''out.json'' \<mapsto> ''old''])) ''out.json'' = Some []"
  by (simp add: save_preload_bpe_def copy2_def published_atomically_def)

text \<open>
  Claim C3 asks that the artifact is written to temporary storage first and then moved to
  the final path, so that a reader never sees a partial file and a failed write publishes
  nothing. \<open>build_bpe_baseline.py\<close> does not do this: it opens the final path itself for
  writing. For every path, every serialization and every earlier file system, the first
  state a reader can observe has an empty file at the final path, and when the next
  operation fails the run ends with \<open>OSError\<close> and that empty file stays there. For the
  serialization \<open>{}\<close> of an empty mapping, neither the run without fault nor the run whose
  write fails publishes atomically.
\<close>

theorem save_preload_baseline_not_atomic:
  "run_io (Some 1) (save_preload_baseline preload_file blocks) fs0 =
     ([fs0(preload_file \<mapsto> [])], Inl OSError) \<and>
   (\<exists>states out. run_io None (save_preload_baseline preload_file blocks) fs0 =
      (fs0(preload_file \<mapsto> []) # states, out)) \<and>
   \<not> published_atomically ''tokenizers/tkn_bpe_preload_2048.json'' ''{}'' Map.empty
       (run_io None (save_preload_baseline ''tokenizers/tkn_bpe_preload_2048.json'' [''{}''])
          Map.empty) \<and>
   \<not> published_atomically ''tokenizers/tkn_bpe_preload_2048.json'' ''{}'' Map.empty
       (run_io (Some 1) (save_preload_baseline ''tokenizers/tkn_bpe_preload_2048.json'' [''{}''])
          Map.empty)"
proof -
  have a: "run_io (Some 1) (save_preload_baseline preload_file blocks) fs0 =
     ([fs0(preload_file \<mapsto> [])], Inl OSError)"
    by (cases blocks) (simp_all add: save_preload_baseline_def)
  have b: "\<exists>states out. run_io None (save_preload_baseline preload_file blocks) fs0 =
      (fs0(preload_file \<mapsto> []) # states, out)"
    by (simp add: save_preload_baseline_def split: prod.splits)
  have c: "\<not> published_atomically ''tokenizers/tkn_bpe_preload_2048.json'' ''{}'' Map.empty
       (run_io None (save_preload_baseline ''tokenizers/tkn_bpe_preload_2048.json'' [''{}''])
          Map.empty)"
    by (simp add: save_preload_baseline_def published_atomically_def)
  have d: "\<not> published_atomically ''tokenizers/tkn_bpe_preload_2048.json'' ''{}'' Map.empty
       (run_io (Some 1) (save_preload_baseline ''tokenizers/tkn_bpe_preload_2048.json'' [''{}''])
          Map.empty)"
    by (simp add: save_preload_baseline_def published_atomically_def)
  from a b c d show ?thesis
    by blast
qed

end
